theory Spec2Isabelle
  imports Main
begin

section \<open>The repository exporter of \<open>extraction/github_filtered_exporter.py\<close>\<close>

text \<open>
  The script has one function, \<open>fetch_repositories\<close>: an outer \<open>while\<close> loop over
  star windows, an inner \<open>for\<close> loop over the pages of one window, and a loop over the
  items of one page that writes one CSV row per item. The model passes the state of
  these loops explicitly. The search API is an input of the model: a function that
  gives, for the number of requests made before and the parameters of the request, the
  outcome of \<open>requests.get\<close>. Calls of \<open>time.sleep\<close> and the requests are recorded in a
  trace; console messages are not modelled.
\<close>

subsection \<open>Items of a response and rows of the file\<close>

text \<open>
  A JSON key of an item is absent, \<open>null\<close>, or has a value. \<open>dict.get(k)\<close> gives
  Python's \<open>None\<close> in the first two cases, so the fields read that way are options;
  \<open>description\<close> is read with the default \<open>''\<close> and keeps the three cases apart.
  \<open>stargazers_count\<close> is an integer when the key is present (the schema of the API),
  and \<open>None\<close> stands for the absent key.
\<close>

datatype 'a field = Absent | Null | Val 'a

record license_obj =
  license_name :: "string field"

record repo =
  name :: "string option"
  full_name :: "string option"
  html_url :: "string option"
  description :: "string field"
  stargazers_count :: "int option"
  forks_count :: "int option"
  open_issues_count :: "int option"
  created_at :: "string option"
  updated_at :: "string option"
  license :: "license_obj option"

text \<open>
  \<open>Malformed\<close> is an item on which the extraction of lines 92 to 104 raises before the
  row is written (an item that is not an object, or a license that is neither falsy nor
  an object).
\<close>

datatype item = Malformed | Repo repo

text \<open>A cell of a row, as handed to \<open>csv.writer\<close>: \<open>None\<close>, a string or an integer.\<close>

datatype cell = CNone | CStr string | CInt int

type_synonym row = "cell list"

definition csv_headers :: "row" where
  "csv_headers =
     [CStr ''name'', CStr ''full_name'', CStr ''url'', CStr ''description'', CStr ''stars'',
      CStr ''forks'', CStr ''open_issues'', CStr ''created_at'', CStr ''updated_at'',
      CStr ''license_name'']"

fun str_cell :: "string option \<Rightarrow> cell" where
  "str_cell None = CNone"
| "str_cell (Some s) = CStr s"

fun int_cell :: "int option \<Rightarrow> cell" where
  "int_cell None = CNone"
| "int_cell (Some n) = CInt n"

text \<open>\<open>str(repo.get('description', ''))\<close>: \<open>str(None)\<close> is the text \<open>None\<close>.\<close>

fun description_str :: "string field \<Rightarrow> string" where
  "description_str Absent = []"
| "description_str Null = ''None''"
| "description_str (Val s) = s"

text \<open>\<open>s.replace("\n", " ")\<close>: every line feed (character 10) becomes a space.\<close>

definition replace_newline :: "string \<Rightarrow> string" where
  "replace_newline s = map (\<lambda>c. if c = CHR 0x0A then CHR '' '' else c) s"

text \<open>\<open>repo.get('stargazers_count', 0)\<close>\<close>

definition stars :: "repo \<Rightarrow> int" where
  "stars r = (case stargazers_count r of None \<Rightarrow> 0 | Some n \<Rightarrow> n)"

text \<open>\<open>(repo.get('license') or {}).get('name', 'N/A')\<close>\<close>

definition license_cell :: "repo \<Rightarrow> cell" where
  "license_cell r =
     (case license r of
        None \<Rightarrow> CStr ''N/A''
      | Some l \<Rightarrow>
          (case license_name l of
             Absent \<Rightarrow> CStr ''N/A''
           | Null \<Rightarrow> CNone
           | Val s \<Rightarrow> CStr s))"

text \<open>The list handed to \<open>writer.writerow\<close> at lines 93 to 104.\<close>

definition make_row :: "repo \<Rightarrow> row" where
  "make_row r =
     [str_cell (name r),
      str_cell (full_name r),
      str_cell (html_url r),
      CStr (replace_newline (description_str (description r))),
      CInt (stars r),
      int_cell (forks_count r),
      int_cell (open_issues_count r),
      str_cell (created_at r),
      str_cell (updated_at r),
      license_cell r]"

subsection \<open>Responses, configuration and state\<close>

text \<open>
  The body of a response: \<open>NotJson\<close> when \<open>response.json()\<close> or the lookup of \<open>items\<close>
  raises, otherwise the value of the key \<open>items\<close> (\<open>None\<close> when the key is absent).
  \<open>RequestFailed\<close> is an exception raised by \<open>requests.get\<close> itself.
\<close>

datatype body = NotJson | Data "item list option"

datatype response = RequestFailed | Response int body

text \<open>
  The API: the number of requests made before, the ceiling of the query
  \<open>language:go stars:<=N\<close>, \<open>per_page\<close> and \<open>page\<close>.
\<close>

type_synonym api = "nat \<Rightarrow> int \<Rightarrow> nat \<Rightarrow> nat \<Rightarrow> response"

datatype event = Get int nat nat | Sleep nat

record config =
  TARGET_TOTAL :: nat
  RESULTS_PER_PAGE :: nat
  PAGES_PER_QUERY :: nat
  initial_max_stars :: int

definition module_config :: config where
  "module_config =
     \<lparr>TARGET_TOTAL = 10000, RESULTS_PER_PAGE = 100, PAGES_PER_QUERY = 10,
      initial_max_stars = 500000\<rparr>"

record state =
  total_saved :: nat
  current_max_stars :: int
  last_star_count :: int
  csvfile :: "row list"
  calls :: nat
  trace :: "event list"

subsection \<open>The loops\<close>

text \<open>
  Lines 88 to 107, the loop over the items of one page. The flag of the result says
  whether an exception left the loop.
\<close>

fun process_items :: "config \<Rightarrow> item list \<Rightarrow> state \<Rightarrow> bool \<times> state" where
  "process_items cfg [] st = (False, st)"
| "process_items cfg (it # its) st =
     (if total_saved st \<ge> TARGET_TOTAL cfg then (False, st)
      else case it of
        Malformed \<Rightarrow> (True, st)
      | Repo r \<Rightarrow>
          process_items cfg its
            (st\<lparr>csvfile := csvfile st @ [make_row r],
                total_saved := total_saved st + 1,
                last_star_count := stars r\<rparr>))"

text \<open>The request of line 72, recorded in the trace.\<close>

definition send_request :: "config \<Rightarrow> nat \<Rightarrow> state \<Rightarrow> state" where
  "send_request cfg pg st =
     st\<lparr>calls := calls st + 1,
        trace := trace st @ [Get (current_max_stars st) (RESULTS_PER_PAGE cfg) pg]\<rparr>"

definition sleep :: "nat \<Rightarrow> state \<Rightarrow> state" where
  "sleep secs st = st\<lparr>trace := trace st @ [Sleep secs]\<rparr>"

text \<open>
  Lines 60 to 119, the \<open>for\<close> loop over the pages that are left. \<open>continue\<close> goes on
  with the rest of the pages, \<open>break\<close> and the \<open>except\<close> clause return the state.
\<close>

fun page_loop :: "config \<Rightarrow> api \<Rightarrow> nat list \<Rightarrow> state \<Rightarrow> state" where
  "page_loop cfg api [] st = st"
| "page_loop cfg api (pg # pages) st =
     (let st1 = send_request cfg pg st in
      case api (calls st) (current_max_stars st) (RESULTS_PER_PAGE cfg) pg of
        RequestFailed \<Rightarrow> st1
      | Response status_code b \<Rightarrow>
          if status_code = 403 then page_loop cfg api pages (sleep 60 st1)
          else if status_code \<noteq> 200 then st1
          else (case b of
                  NotJson \<Rightarrow> st1
                | Data d \<Rightarrow>
                    (let items = (case d of None \<Rightarrow> [] | Some xs \<Rightarrow> xs) in
                     if items = [] then st1
                     else (case process_items cfg items st1 of
                             (True, st2) \<Rightarrow> st2
                           | (False, st2) \<Rightarrow>
                               if total_saved st2 \<ge> TARGET_TOTAL cfg then st2
                               else page_loop cfg api pages (sleep 2 st2)))))"

text \<open>Lines 124 to 127, the move of the window.\<close>

definition advance_window :: "state \<Rightarrow> state" where
  "advance_window st =
     (if last_star_count st \<ge> current_max_stars st
      then st\<lparr>current_max_stars := current_max_stars st - 1\<rparr>
      else st\<lparr>current_max_stars := last_star_count st\<rparr>)"

text \<open>Lines 56 to 127, one pass of the body of the \<open>while\<close> loop.\<close>

definition outer_pass :: "config \<Rightarrow> api \<Rightarrow> state \<Rightarrow> state" where
  "outer_pass cfg api st =
     advance_window
       (page_loop cfg api [1 ..< PAGES_PER_QUERY cfg + 1]
          (st\<lparr>last_star_count := current_max_stars st\<rparr>))"

lemma process_items_max_stars:
  "current_max_stars (snd (process_items cfg its st)) = current_max_stars st"
  by (induction its arbitrary: st) (auto split: item.splits)

lemma page_loop_max_stars:
  "current_max_stars (page_loop cfg api pages st) = current_max_stars st"
proof (induction pages arbitrary: st)
  case Nil
  show ?case by simp
next
  case (Cons pg pages)
  have items: "current_max_stars st2 = current_max_stars st"
    if "process_items cfg its (send_request cfg pg st) = (fl, st2)" for its fl st2
    using process_items_max_stars [of cfg its "send_request cfg pg st"] that
    by (simp add: send_request_def)
  show ?case
    by (auto simp: Let_def Cons.IH send_request_def sleep_def items
          split: response.splits body.splits option.splits prod.splits bool.splits)
qed

lemma outer_pass_decreases:
  "current_max_stars (outer_pass cfg api st) \<le> current_max_stars st - 1"
  by (simp add: outer_pass_def advance_window_def page_loop_max_stars)

text \<open>
  Lines 55 to 131, the \<open>while\<close> loop: it runs a pass while fewer than the target are
  saved, and leaves by \<open>break\<close> when the ceiling is not positive after a pass.
\<close>

function outer_loop :: "config \<Rightarrow> api \<Rightarrow> state \<Rightarrow> state" where
  "outer_loop cfg api st =
     (if total_saved st < TARGET_TOTAL cfg then
        (let st' = outer_pass cfg api st in
         if current_max_stars st' \<le> 0 then st' else outer_loop cfg api st')
      else st)"
  by pat_completeness auto
termination
proof (relation "measure (\<lambda>(cfg, api, st). nat (current_max_stars st))")
  show "wf (measure (\<lambda>(cfg, api, st). nat (current_max_stars st)))"
    by simp
next
  fix cfg :: config and api :: api and st st' :: state
  assume "st' = outer_pass cfg api st" and "\<not> current_max_stars st' \<le> 0"
  then show "((cfg, api, st'), (cfg, api, st))
      \<in> measure (\<lambda>(cfg, api, st). nat (current_max_stars st))"
    using outer_pass_decreases [of cfg api st] by simp
qed

text \<open>The number of passes the \<open>while\<close> loop makes, by the same recursion.\<close>

function outer_iterations :: "config \<Rightarrow> api \<Rightarrow> state \<Rightarrow> nat" where
  "outer_iterations cfg api st =
     (if total_saved st < TARGET_TOTAL cfg then
        (let st' = outer_pass cfg api st in
         if current_max_stars st' \<le> 0 then 1 else 1 + outer_iterations cfg api st')
      else 0)"
  by pat_completeness auto
termination
proof (relation "measure (\<lambda>(cfg, api, st). nat (current_max_stars st))")
  show "wf (measure (\<lambda>(cfg, api, st). nat (current_max_stars st)))"
    by simp
next
  fix cfg :: config and api :: api and st st' :: state
  assume "st' = outer_pass cfg api st" and "\<not> current_max_stars st' \<le> 0"
  then show "((cfg, api, st'), (cfg, api, st))
      \<in> measure (\<lambda>(cfg, api, st). nat (current_max_stars st))"
    using outer_pass_decreases [of cfg api st] by simp
qed

text \<open>
  Lines 45 to 51, the state at the first test of the \<open>while\<close> loop: the header row is
  written, nothing is saved. \<open>last_star_count\<close> is not bound yet; the loop assigns it
  before reading it.
\<close>

definition initial_state :: "config \<Rightarrow> state" where
  "initial_state cfg =
     \<lparr>total_saved = 0, current_max_stars = initial_max_stars cfg,
      last_star_count = initial_max_stars cfg, csvfile = [csv_headers], calls = 0,
      trace = []\<rparr>"

definition fetch_repositories :: "config \<Rightarrow> api \<Rightarrow> state" where
  "fetch_repositories cfg api = outer_loop cfg api (initial_state cfg)"

text \<open>The rows below the header row.\<close>

definition data_rows :: "state \<Rightarrow> row list" where
  "data_rows st = tl (csvfile st)"

subsection \<open>What a stretch of the run has written\<close>

text \<open>
  \<open>wrote st rs st'\<close>: between the states \<open>st\<close> and \<open>st'\<close> the run has written the rows of
  the items \<open>rs\<close>, in this order, and nothing else; the counter and \<open>last_star_count\<close>
  follow them, and the ceiling has not moved. \<open>returned api r\<close>: the item \<open>r\<close> is in the
  item list of a successful response of the API.
\<close>

definition wrote :: "state \<Rightarrow> repo list \<Rightarrow> state \<Rightarrow> bool" where
  "wrote st rs st' \<longleftrightarrow>
     csvfile st' = csvfile st @ map make_row rs \<and>
     total_saved st' = total_saved st + length rs \<and>
     last_star_count st' = (if rs = [] then last_star_count st else stars (last rs)) \<and>
     current_max_stars st' = current_max_stars st"

definition returned :: "api \<Rightarrow> repo \<Rightarrow> bool" where
  "returned api r \<longleftrightarrow>
     (\<exists>n c pp pg its. api n c pp pg = Response 200 (Data (Some its)) \<and> Repo r \<in> set its)"

subsection \<open>A run used as an example\<close>

text \<open>
  The first request is rate limited, the second returns one item that has no
  \<open>stargazers_count\<close> and a description of two lines, and every later request fails.
\<close>

definition repo_without_stars :: repo where
  "repo_without_stars =
     \<lparr>name = Some ''cli'', full_name = Some ''acme/cli'', html_url = None,
      description = Val [CHR ''a'', CHR 0x0A, CHR ''b''],
      stargazers_count = None, forks_count = Some 1, open_issues_count = None,
      created_at = None, updated_at = None, license = None\<rparr>"

definition rate_limited_once :: api where
  "rate_limited_once n c pp pg =
     (if n = 0 then Response 403 NotJson
      else if n = 1 then Response 200 (Data (Some [Repo repo_without_stars]))
      else RequestFailed)"

text \<open>
  A second run: the first request returns a page of two items in descending order of
  stars, the second an empty page, and every later request the status 500.
\<close>

definition repo_with_stars :: "int \<Rightarrow> repo" where
  "repo_with_stars n = repo_without_stars\<lparr>stargazers_count := Some n\<rparr>"

definition one_descending_page :: api where
  "one_descending_page n c pp pg =
     (if n = 0 then Response 200 (Data (Some [Repo (repo_with_stars 120), Repo (repo_with_stars 80)]))
      else if n = 1 then Response 200 (Data (Some []))
      else Response 500 NotJson)"

text \<open>
  A third run: the first request returns a page whose two items are not in descending
  order of stars (80, then 120), and every later request an empty page.
\<close>

definition ascending_page :: api where
  "ascending_page n c pp pg =
     (if n = 0 then Response 200 (Data (Some [Repo (repo_with_stars 80), Repo (repo_with_stars 120)]))
      else Response 200 (Data (Some [])))"

subsection \<open>Notions of the claims\<close>

text \<open>
  The star count of a written row, read from its column \<open>stars\<close>; the lowest value a pass
  has observed is the minimum of the ceiling and the star counts of the rows of the pass.
\<close>

definition row_stars :: "row \<Rightarrow> int" where
  "row_stars row = (case drop 4 row of CInt n # _ \<Rightarrow> n | _ \<Rightarrow> 0)"


text \<open>The counter agrees with the file: the header row and \<open>total_saved\<close> rows.\<close>

definition counter_consistent :: "state \<Rightarrow> bool" where
  "counter_consistent st \<longleftrightarrow> csvfile st \<noteq> [] \<and> total_saved st = length (data_rows st)"

declare outer_loop.simps [simp del] outer_iterations.simps [simp del]

subsection \<open>Rows, counter and window over the loops\<close>

lemma wrote_refl: "wrote st [] st"
  by (simp add: wrote_def)

lemma wrote_trans: "wrote a rs b \<Longrightarrow> wrote b rs' c \<Longrightarrow> wrote a (rs @ rs') c"
  by (auto simp: wrote_def)

lemma wrote_send_request: "wrote st [] (send_request cfg pg st)"
  by (simp add: wrote_def send_request_def)

lemma wrote_sleep: "wrote st [] (sleep n st)"
  by (simp add: wrote_def sleep_def)

lemma process_items_wrote:
  "\<exists>rs. wrote st rs (snd (process_items cfg its st)) \<and> (\<forall>r \<in> set rs. Repo r \<in> set its)"
proof (induction its arbitrary: st)
  case Nil
  show ?case using wrote_refl [of st] by auto
next
  case (Cons it its)
  show ?case
  proof (cases "total_saved st \<ge> TARGET_TOTAL cfg")
    case True
    then show ?thesis using wrote_refl [of st] by auto
  next
    case False
    show ?thesis
    proof (cases it)
      case Malformed
      with False show ?thesis using wrote_refl [of st] by auto
    next
      case (Repo r)
      let ?st1 = "st\<lparr>csvfile := csvfile st @ [make_row r],
                total_saved := total_saved st + 1, last_star_count := stars r\<rparr>"
      have one: "wrote st [r] ?st1" by (simp add: wrote_def)
      from Cons.IH [of ?st1] obtain rs where
        rs: "wrote ?st1 rs (snd (process_items cfg its ?st1))" "\<forall>r \<in> set rs. Repo r \<in> set its"
        by blast
      have "wrote st ([r] @ rs) (snd (process_items cfg its ?st1))"
        using wrote_trans [OF one rs(1)] .
      moreover have "\<forall>x \<in> set ([r] @ rs). Repo x \<in> set (it # its)"
        using rs(2) Repo by auto
      ultimately show ?thesis using False Repo by (intro exI [of _ "[r] @ rs"]) simp
    qed
  qed
qed

lemma process_items_bound:
  "total_saved st \<le> TARGET_TOTAL cfg \<Longrightarrow>
   total_saved (snd (process_items cfg its st)) \<le> TARGET_TOTAL cfg"
  by (induction its arbitrary: st) (auto split: item.splits)

lemma process_items_calls: "calls (snd (process_items cfg its st)) = calls st"
  by (induction its arbitrary: st) (auto split: item.splits)

lemma process_items_trace: "trace (snd (process_items cfg its st)) = trace st"
  by (induction its arbitrary: st) (auto split: item.splits)

lemma page_loop_wrote:
  "\<exists>rs. wrote st rs (page_loop cfg api pages st) \<and> (\<forall>r \<in> set rs. returned api r)"
proof (induction pages arbitrary: st)
  case Nil
  show ?case using wrote_refl [of st] by (intro exI [of _ "[]"]) simp
next
  case (Cons pg pages)
  let ?st1 = "send_request cfg pg st"
  let ?resp = "api (calls st) (current_max_stars st) (RESULTS_PER_PAGE cfg) pg"
  have stop: "\<exists>rs. wrote st rs ?st1 \<and> (\<forall>r \<in> set rs. returned api r)"
    using wrote_send_request [of st cfg pg] by (intro exI [of _ "[]"]) simp
  have cont: "\<exists>rs. wrote st rs (page_loop cfg api pages st2) \<and> (\<forall>r \<in> set rs. returned api r)"
    if "wrote st rs0 st2" and "\<forall>r \<in> set rs0. returned api r" for st2 rs0
  proof -
    from Cons.IH [of st2] obtain rs where
      rs: "wrote st2 rs (page_loop cfg api pages st2)" "\<forall>r \<in> set rs. returned api r"
      by blast
    have "wrote st (rs0 @ rs) (page_loop cfg api pages st2)"
      using wrote_trans [OF that(1) rs(1)] .
    moreover have "\<forall>r \<in> set (rs0 @ rs). returned api r"
      using that(2) rs(2) by auto
    ultimately show ?thesis by blast
  qed
  show ?case
  proof (cases ?resp)
    case RequestFailed
    then show ?thesis using stop by (simp add: Let_def)
  next
    case (Response code b)
    show ?thesis
    proof (cases "code = 403")
      case True
      have "wrote st ([] @ []) (sleep 60 ?st1)"
        using wrote_trans [OF wrote_send_request wrote_sleep] .
      then have "wrote st [] (sleep 60 ?st1)" by simp
      from cont [OF this] show ?thesis using Response True by (simp add: Let_def)
    next
      case not403: False
      show ?thesis
      proof (cases "code = 200")
        case False
        then show ?thesis using stop Response not403 by (simp add: Let_def)
      next
        case True
        show ?thesis
        proof (cases b)
          case NotJson
          then show ?thesis using stop Response True by (simp add: Let_def)
        next
          case (Data d)
          let ?items = "case d of None \<Rightarrow> [] | Some xs \<Rightarrow> xs"
          show ?thesis
          proof (cases "?items = []")
            case True
            then show ?thesis using stop Response \<open>code = 200\<close> Data by (simp add: Let_def)
          next
            case False
            then have d: "d = Some ?items" by (cases d) auto
            obtain fl st2 where p: "process_items cfg ?items ?st1 = (fl, st2)"
              by (cases "process_items cfg ?items ?st1")
            from process_items_wrote [of ?st1 cfg ?items] p obtain rs1 where
              rs1: "wrote ?st1 rs1 st2" "\<forall>r \<in> set rs1. Repo r \<in> set ?items"
              by auto
            have ret: "\<forall>r \<in> set rs1. returned api r"
              unfolding returned_def using rs1(2) Response \<open>code = 200\<close> Data d by metis
            have w2: "wrote st rs1 st2"
              using wrote_trans [OF wrote_send_request rs1(1)] by simp
            have w3: "wrote st rs1 (sleep 2 st2)"
              using wrote_trans [OF w2 wrote_sleep] by simp
            have fin: "\<exists>rs. wrote st rs st2 \<and> (\<forall>r \<in> set rs. returned api r)"
              using w2 ret by blast
            have eq: "page_loop cfg api (pg # pages) st =
                (if fl then st2 else if total_saved st2 \<ge> TARGET_TOTAL cfg then st2
                 else page_loop cfg api pages (sleep 2 st2))"
              using Response \<open>code = 200\<close> Data False p by (simp add: Let_def)
            show ?thesis unfolding eq using fin cont [OF w3 ret] by simp
          qed
        qed
      qed
    qed
  qed
qed

lemma page_loop_bound:
  "total_saved st \<le> TARGET_TOTAL cfg \<Longrightarrow>
   total_saved (page_loop cfg api pages st) \<le> TARGET_TOTAL cfg"
proof (induction pages arbitrary: st)
  case Nil
  then show ?case by simp
next
  case (Cons pg pages)
  have items: "total_saved st2 \<le> TARGET_TOTAL cfg"
    if "process_items cfg its (send_request cfg pg st) = (fl, st2)" for its fl st2
    using process_items_bound [of "send_request cfg pg st" cfg its] that Cons.prems
    by (simp add: send_request_def)
  show ?case using Cons.prems
    by (auto simp: Let_def Cons.IH send_request_def sleep_def items
          split: response.splits body.splits option.splits prod.splits bool.splits)
qed

lemma outer_pass_wrote:
  "\<exists>rs. csvfile (outer_pass cfg api st) = csvfile st @ map make_row rs \<and>
     total_saved (outer_pass cfg api st) = total_saved st + length rs \<and>
     (\<forall>r \<in> set rs. returned api r) \<and>
     current_max_stars (outer_pass cfg api st) =
       (let l = (if rs = [] then current_max_stars st else stars (last rs))
        in if l \<ge> current_max_stars st then current_max_stars st - 1 else l)"
proof -
  let ?st0 = "st\<lparr>last_star_count := current_max_stars st\<rparr>"
  let ?st2 = "page_loop cfg api [1 ..< PAGES_PER_QUERY cfg + 1] ?st0"
  from page_loop_wrote [of ?st0 cfg api "[1 ..< PAGES_PER_QUERY cfg + 1]"] obtain rs where
    rs: "wrote ?st0 rs ?st2" "\<forall>r \<in> set rs. returned api r"
    by blast
  from rs(1) have
    "csvfile (advance_window ?st2) = csvfile st @ map make_row rs"
    "total_saved (advance_window ?st2) = total_saved st + length rs"
    "current_max_stars (advance_window ?st2) =
       (let l = (if rs = [] then current_max_stars st else stars (last rs))
        in if l \<ge> current_max_stars st then current_max_stars st - 1 else l)"
    by (simp_all add: wrote_def advance_window_def Let_def)
  with rs(2) show ?thesis unfolding outer_pass_def by blast
qed

lemma outer_pass_bound:
  "total_saved st \<le> TARGET_TOTAL cfg \<Longrightarrow>
   total_saved (outer_pass cfg api st) \<le> TARGET_TOTAL cfg"
  using page_loop_bound [of "st\<lparr>last_star_count := current_max_stars st\<rparr>" cfg api]
  by (simp add: outer_pass_def advance_window_def)

lemma outer_loop_wrote:
  "\<exists>rs. csvfile (outer_loop cfg api st) = csvfile st @ map make_row rs \<and>
     total_saved (outer_loop cfg api st) = total_saved st + length rs \<and>
     (\<forall>r \<in> set rs. returned api r)"
proof (induction cfg api st rule: outer_loop.induct)
  case (1 cfg api st)
  let ?st' = "outer_pass cfg api st"
  from outer_pass_wrote [of cfg api st] obtain rs1 where
    rs1: "csvfile ?st' = csvfile st @ map make_row rs1"
      "total_saved ?st' = total_saved st + length rs1" "\<forall>r \<in> set rs1. returned api r"
    by blast
  show ?case
  proof (cases "total_saved st < TARGET_TOTAL cfg")
    case False
    then show ?thesis by (intro exI [of _ "[]"]) (simp add: outer_loop.simps [of cfg api st])
  next
    case True
    show ?thesis
    proof (cases "current_max_stars ?st' \<le> 0")
      case stop: True
      have "outer_loop cfg api st = ?st'"
        using True stop by (simp add: outer_loop.simps [of cfg api st])
      then show ?thesis using rs1 by auto
    next
      case go: False
      have eq: "outer_loop cfg api st = outer_loop cfg api ?st'"
        using True go by (simp add: outer_loop.simps [of cfg api st])
      from "1.IH" [OF True refl go] obtain rs2 where
        rs2: "csvfile (outer_loop cfg api ?st') = csvfile ?st' @ map make_row rs2"
          "total_saved (outer_loop cfg api ?st') = total_saved ?st' + length rs2"
          "\<forall>r \<in> set rs2. returned api r"
        by blast
      show ?thesis unfolding eq using rs1 rs2 by (intro exI [of _ "rs1 @ rs2"]) auto
    qed
  qed
qed

lemma outer_loop_bound:
  "total_saved st \<le> TARGET_TOTAL cfg \<Longrightarrow>
   total_saved (outer_loop cfg api st) \<le> TARGET_TOTAL cfg"
proof (induction cfg api st rule: outer_loop.induct)
  case (1 cfg api st)
  show ?case
  proof (cases "total_saved st < TARGET_TOTAL cfg")
    case False
    then show ?thesis using "1.prems" by (simp add: outer_loop.simps [of cfg api st])
  next
    case True
    show ?thesis
    proof (cases "current_max_stars (outer_pass cfg api st) \<le> 0")
      case stop: True
      then show ?thesis using True outer_pass_bound [OF "1.prems", of api]
        by (simp add: outer_loop.simps [of cfg api st])
    next
      case go: False
      then show ?thesis
        using True "1.IH" [OF True refl go outer_pass_bound [OF "1.prems"]]
        by (simp add: outer_loop.simps [of cfg api st])
    qed
  qed
qed

lemma fetch_repositories_wrote:
  "\<exists>rs. csvfile (fetch_repositories cfg api) = csv_headers # map make_row rs \<and>
     total_saved (fetch_repositories cfg api) = length rs \<and>
     (\<forall>r \<in> set rs. returned api r)"
  using outer_loop_wrote [of cfg api "initial_state cfg"]
  by (simp add: fetch_repositories_def initial_state_def)

section \<open>The claims\<close>

subsection \<open>Rate limiting\<close>

text \<open>
  After a response with status 403 the loop sleeps for 60 seconds and goes on with the
  pages that are left: \<open>continue\<close> in a \<open>for\<close> loop takes the next value of the range.
\<close>

lemma rate_limit_goes_to_next_page:
  "api (calls st) (current_max_stars st) (RESULTS_PER_PAGE cfg) pg = Response 403 b \<Longrightarrow>
   page_loop cfg api (pg # pages) st = page_loop cfg api pages (sleep 60 (send_request cfg pg st))"
  by (simp add: Let_def)

text \<open>
  Claim C1: whenever a request returns the status 403, the collector pauses for the
  cooldown and then retries the same page number for the same ceiling, without advancing
  the page counter and without incrementing the saved count. The code does not do this.
  In the example run the request for page 1 is rate limited; the request after the sleep
  of 60 seconds is for page 2, and page 1 is never requested again.
\<close>

theorem rate_limited_page_is_not_retried:
  "trace (fetch_repositories module_config rate_limited_once) =
     [Get 500000 100 1, Sleep 60, Get 500000 100 2, Sleep 2, Get 500000 100 3]"
  by code_simp

subsection \<open>The window\<close>

lemma outer_iterations_bound:
  "outer_iterations cfg api st \<le> max 1 (nat (current_max_stars st))"
proof (induction cfg api st rule: outer_iterations.induct)
  case (1 cfg api st)
  let ?st' = "outer_pass cfg api st"
  show ?case
  proof (cases "total_saved st < TARGET_TOTAL cfg")
    case False
    then show ?thesis by (simp add: outer_iterations.simps [of cfg api st])
  next
    case True
    show ?thesis
    proof (cases "current_max_stars ?st' \<le> 0")
      case stop: True
      then show ?thesis using True by (simp add: outer_iterations.simps [of cfg api st])
    next
      case go: False
      have "outer_iterations cfg api ?st' \<le> max 1 (nat (current_max_stars ?st'))"
        using "1.IH" [OF True refl go] .
      moreover have "current_max_stars ?st' \<le> current_max_stars st - 1"
        by (rule outer_pass_decreases)
      ultimately show ?thesis
        using True go by (simp add: outer_iterations.simps [of cfg api st])
    qed
  qed
qed

lemma outer_loop_funpow:
  "outer_loop cfg api st = ((outer_pass cfg api) ^^ outer_iterations cfg api st) st"
proof (induction cfg api st rule: outer_loop.induct)
  case (1 cfg api st)
  show ?case
  proof (cases "total_saved st < TARGET_TOTAL cfg")
    case False
    then show ?thesis
      by (simp add: outer_loop.simps [of cfg api st] outer_iterations.simps [of cfg api st])
  next
    case True
    show ?thesis
    proof (cases "current_max_stars (outer_pass cfg api st) \<le> 0")
      case stop: True
      then show ?thesis using True
        by (simp add: outer_loop.simps [of cfg api st] outer_iterations.simps [of cfg api st])
    next
      case go: False
      then show ?thesis using True "1.IH" [OF True refl go]
        by (simp add: outer_loop.simps [of cfg api st] outer_iterations.simps [of cfg api st]
              funpow_swap1 Let_def)
    qed
  qed
qed

text \<open>
  Claim C2: the ceiling never rises and falls by at least 1 in every pass of the outer
  loop, so the outer loop ends after at most (initial ceiling) passes. Every pass lowers
  the ceiling by 1 or more; the loop, a total function, is \<open>outer_iterations\<close> passes; and
  from a ceiling of 1 or more that number is at most the ceiling, for every state and
  for the whole run from the initial ceiling.
\<close>

theorem window_ceiling_decreases_and_loop_terminates:
  "current_max_stars (outer_pass cfg api st) \<le> current_max_stars st - 1 \<and>
   outer_loop cfg api st = ((outer_pass cfg api) ^^ outer_iterations cfg api st) st \<and>
   (1 \<le> current_max_stars st \<longrightarrow>
      int (outer_iterations cfg api st) \<le> current_max_stars st) \<and>
   fetch_repositories cfg api =
     ((outer_pass cfg api) ^^ outer_iterations cfg api (initial_state cfg)) (initial_state cfg) \<and>
   (1 \<le> initial_max_stars cfg \<longrightarrow>
      int (outer_iterations cfg api (initial_state cfg)) \<le> initial_max_stars cfg)"
proof -
  have b: "int (outer_iterations cfg api s) \<le> current_max_stars s"
    if "1 \<le> current_max_stars s" for s
    using outer_iterations_bound [of cfg api s] that by simp
  show ?thesis
    using outer_pass_decreases [of cfg api st] outer_loop_funpow [of cfg api st]
      outer_loop_funpow [of cfg api "initial_state cfg"] b [of st] b [of "initial_state cfg"]
    by (simp add: fetch_repositories_def initial_state_def)
qed

theorem window_ceiling_decreases_and_loop_terminates_witness:
  "1 \<le> current_max_stars (initial_state module_config) \<and>
   1 \<le> initial_max_stars module_config \<and>
   outer_iterations module_config rate_limited_once (initial_state module_config) = 1 \<and>
   int (outer_iterations module_config rate_limited_once (initial_state module_config))
     \<le> initial_max_stars module_config"
proof -
  have 1: "1 \<le> current_max_stars (initial_state module_config)" by code_simp
  have 2: "1 \<le> initial_max_stars module_config" by code_simp
  have 3: "outer_iterations module_config rate_limited_once (initial_state module_config) = 1"
    by code_simp
  show ?thesis
    using 1 2 3
      window_ceiling_decreases_and_loop_terminates
        [of module_config rate_limited_once "initial_state module_config"]
    by simp
qed

subsection \<open>The rows of the file\<close>

text \<open>
  Claim C3: for every run and every sequence of responses of the API, the number of
  record rows in the output file, the header row not counted, is at most the target.
\<close>

theorem written_rows_at_most_target:
  "length (data_rows (fetch_repositories cfg api)) \<le> TARGET_TOTAL cfg"
proof -
  from fetch_repositories_wrote [of cfg api] obtain rs where
    rs: "csvfile (fetch_repositories cfg api) = csv_headers # map make_row rs"
      "total_saved (fetch_repositories cfg api) = length rs"
    by blast
  have "total_saved (fetch_repositories cfg api) \<le> TARGET_TOTAL cfg"
    unfolding fetch_repositories_def
    by (rule outer_loop_bound) (simp add: initial_state_def)
  with rs show ?thesis by (simp add: data_rows_def)
qed

subsection \<open>The rule of the window\<close>

lemma row_stars_make_row: "row_stars (make_row r) = stars r"
  by (simp add: row_stars_def make_row_def)

lemma fold_min_descending:
  "sorted (rev xs) \<Longrightarrow> fold min xs (c::int) = (if xs = [] then c else min c (last xs))"
proof (induction xs arbitrary: c)
  case Nil
  show ?case by simp
next
  case (Cons x xs)
  from Cons.prems have s: "sorted (rev xs)" and le: "\<forall>y \<in> set xs. y \<le> x"
    by (auto simp: sorted_append)
  show ?case
  proof (cases "xs = []")
    case True
    then show ?thesis by (simp add: min.commute)
  next
    case False
    then have "last xs \<le> x" using le by simp
    then show ?thesis using Cons.IH [OF s, of "min x c"] False by auto
  qed
qed

text \<open>
  The ceiling after a pass follows the star count of the last row the pass wrote.
\<close>

lemma window_follows_last_row:
  assumes "csvfile (outer_pass cfg api st) = csvfile st @ new"
  shows "current_max_stars (outer_pass cfg api st) =
     (let l = (if new = [] then current_max_stars st else row_stars (last new))
      in if l \<ge> current_max_stars st then current_max_stars st - 1 else l)"
proof -
  from outer_pass_wrote [of cfg api st] obtain rs where
    rs: "csvfile (outer_pass cfg api st) = csvfile st @ map make_row rs"
      "current_max_stars (outer_pass cfg api st) =
         (let l = (if rs = [] then current_max_stars st else stars (last rs))
          in if l \<ge> current_max_stars st then current_max_stars st - 1 else l)"
    by blast
  from rs(1) assms have new: "new = map make_row rs" by simp
  have "row_stars (last new) = stars (last rs)" if "rs \<noteq> []"
    using that unfolding new by (simp add: last_map row_stars_make_row)
  then show ?thesis using rs(2) new by (auto simp: Let_def)
qed

text \<open>
  When the rows of a pass come in descending order of stars, as the query asks
  (\<open>sort=stars\<close>, \<open>order=desc\<close>), the last star count is the lowest one, and the ceiling
  moves by the rule on the lowest observed value.
\<close>

lemma window_rule_on_descending_rows:
  assumes "csvfile (outer_pass cfg api st) = csvfile st @ new"
    and "sorted (rev (map row_stars new))"
  shows "current_max_stars (outer_pass cfg api st) =
     (let lowest = fold min (map row_stars new) (current_max_stars st)
      in if lowest \<ge> current_max_stars st then current_max_stars st - 1 else lowest)"
proof -
  from outer_pass_wrote [of cfg api st] obtain rs where
    rs: "csvfile (outer_pass cfg api st) = csvfile st @ map make_row rs"
      "current_max_stars (outer_pass cfg api st) =
         (let l = (if rs = [] then current_max_stars st else stars (last rs))
          in if l \<ge> current_max_stars st then current_max_stars st - 1 else l)"
    by blast
  from rs(1) assms(1) have new: "new = map make_row rs" by simp
  then have m: "map row_stars new = map stars rs"
    by (simp add: row_stars_make_row)
  have "fold min (map row_stars new) (current_max_stars st) =
      (if rs = [] then current_max_stars st else min (current_max_stars st) (stars (last rs)))"
    using fold_min_descending [of "map stars rs" "current_max_stars st"] assms(2)
    unfolding m by (simp add: last_map)
  then show ?thesis using rs(2) by (auto simp: Let_def)
qed

text \<open>
  Claim C4: at the end of a pass, if the lowest observed star count did not fall below the
  ceiling, the ceiling is decremented by exactly 1; otherwise the ceiling becomes the
  lowest observed star count of the pass. The code does not do this on every response:
  line 107 overwrites \<open>last_star_count\<close> with the star count of each row it writes, though
  the comment of line 106 calls it the lowest of the batch. In the example run the one
  page of the pass has items with 80 and 120 stars, in this order: the lowest observed
  value is 80, below the ceiling of 500000, and the ceiling after the pass is 120.
\<close>

theorem window_tracks_last_row_not_lowest:
  "csvfile (outer_pass module_config ascending_page (initial_state module_config)) =
     csvfile (initial_state module_config) @
       [make_row (repo_with_stars 80), make_row (repo_with_stars 120)] \<and>
   map row_stars [make_row (repo_with_stars 80), make_row (repo_with_stars 120)] = [80, 120] \<and>
   current_max_stars (initial_state module_config) = 500000 \<and>
   fold min [80, 120] (current_max_stars (initial_state module_config)) = 80 \<and>
   current_max_stars (outer_pass module_config ascending_page (initial_state module_config)) = 120"
  by code_simp

subsection \<open>Pages that stop the inner loop\<close>

lemma upt_pages: "1 \<le> n \<Longrightarrow> [1 ..< n + 1] = 1 # [Suc 1 ..< n + 1]"
  by (rule upt_conv_Cons) simp

lemma stop_consequences:
  assumes "page_loop cfg api (pg # pages) st = send_request cfg pg st"
  shows "csvfile (page_loop cfg api (pg # pages) st) = csvfile st \<and>
     total_saved (page_loop cfg api (pg # pages) st) = total_saved st \<and>
     trace (page_loop cfg api (pg # pages) st) =
       trace st @ [Get (current_max_stars st) (RESULTS_PER_PAGE cfg) pg] \<and>
     current_max_stars (advance_window (page_loop cfg api (pg # pages) st)) =
       (if last_star_count st \<ge> current_max_stars st then current_max_stars st - 1
        else last_star_count st)"
  unfolding assms by (simp add: send_request_def advance_window_def)

lemma stop_at_first_page:
  assumes "1 \<le> PAGES_PER_QUERY cfg"
    and "\<And>rest. page_loop cfg api (1 # rest) (st\<lparr>last_star_count := current_max_stars st\<rparr>) =
          send_request cfg 1 (st\<lparr>last_star_count := current_max_stars st\<rparr>)"
  shows "csvfile (outer_pass cfg api st) = csvfile st \<and>
     trace (outer_pass cfg api st) =
       trace st @ [Get (current_max_stars st) (RESULTS_PER_PAGE cfg) 1] \<and>
     current_max_stars (outer_pass cfg api st) = current_max_stars st - 1"
  unfolding outer_pass_def upt_pages [OF assms(1)] assms(2)
  by (simp add: send_request_def advance_window_def)

lemma empty_page_stops:
  assumes "api (calls st) (current_max_stars st) (RESULTS_PER_PAGE cfg) pg = Response 200 (Data d)"
    and "d = None \<or> d = Some []"
  shows "page_loop cfg api (pg # pages) st = send_request cfg pg st"
  using assms by (auto simp: Let_def)

text \<open>
  Claim C5: when a response with status 200 has no items (the key is absent or the list
  is empty), the inner loop stops at once, writes no row and requests no further page,
  and the outer loop applies the rule of the window to the state it is left with. When
  this happens at the first page of a pass, the ceiling falls by exactly 1.
\<close>

theorem empty_page_stops_inner_loop:
  assumes "d = None \<or> d = Some []"
  shows
    "(api (calls st) (current_max_stars st) (RESULTS_PER_PAGE cfg) pg = Response 200 (Data d) \<longrightarrow>
        page_loop cfg api (pg # pages) st = send_request cfg pg st \<and>
        csvfile (page_loop cfg api (pg # pages) st) = csvfile st \<and>
        total_saved (page_loop cfg api (pg # pages) st) = total_saved st \<and>
        trace (page_loop cfg api (pg # pages) st) =
          trace st @ [Get (current_max_stars st) (RESULTS_PER_PAGE cfg) pg] \<and>
        current_max_stars (advance_window (page_loop cfg api (pg # pages) st)) =
          (if last_star_count st \<ge> current_max_stars st then current_max_stars st - 1
           else last_star_count st)) \<and>
     (1 \<le> PAGES_PER_QUERY cfg \<and>
      api (calls st) (current_max_stars st) (RESULTS_PER_PAGE cfg) 1 = Response 200 (Data d) \<longrightarrow>
        csvfile (outer_pass cfg api st) = csvfile st \<and>
        trace (outer_pass cfg api st) =
          trace st @ [Get (current_max_stars st) (RESULTS_PER_PAGE cfg) 1] \<and>
        current_max_stars (outer_pass cfg api st) = current_max_stars st - 1)"
proof (intro conjI impI)
  assume r: "api (calls st) (current_max_stars st) (RESULTS_PER_PAGE cfg) pg = Response 200 (Data d)"
  have s: "page_loop cfg api (pg # pages) st = send_request cfg pg st"
    by (rule empty_page_stops [where d = d]) (rule r, rule assms)
  from stop_consequences [OF s] s
  show "page_loop cfg api (pg # pages) st = send_request cfg pg st"
    and "csvfile (page_loop cfg api (pg # pages) st) = csvfile st"
    and "total_saved (page_loop cfg api (pg # pages) st) = total_saved st"
    and "trace (page_loop cfg api (pg # pages) st) =
          trace st @ [Get (current_max_stars st) (RESULTS_PER_PAGE cfg) pg]"
    and "current_max_stars (advance_window (page_loop cfg api (pg # pages) st)) =
          (if last_star_count st \<ge> current_max_stars st then current_max_stars st - 1
           else last_star_count st)"
    by blast+
next
  assume a: "1 \<le> PAGES_PER_QUERY cfg \<and>
      api (calls st) (current_max_stars st) (RESULTS_PER_PAGE cfg) 1 = Response 200 (Data d)"
  have "page_loop cfg api (1 # rest) (st\<lparr>last_star_count := current_max_stars st\<rparr>) =
          send_request cfg 1 (st\<lparr>last_star_count := current_max_stars st\<rparr>)" for rest
    by (rule empty_page_stops [OF _ assms]) (use a in simp)
  from stop_at_first_page [OF _ this] a
  show "csvfile (outer_pass cfg api st) = csvfile st"
    and "trace (outer_pass cfg api st) =
          trace st @ [Get (current_max_stars st) (RESULTS_PER_PAGE cfg) 1]"
    and "current_max_stars (outer_pass cfg api st) = current_max_stars st - 1"
    by blast+
qed

theorem empty_page_stops_inner_loop_witness:
  "one_descending_page (calls ((initial_state module_config)\<lparr>calls := 1\<rparr>))
      (current_max_stars ((initial_state module_config)\<lparr>calls := 1\<rparr>))
      (RESULTS_PER_PAGE module_config) 1 = Response 200 (Data (Some [])) \<and>
   1 \<le> PAGES_PER_QUERY module_config \<and>
   page_loop module_config one_descending_page [1, 2] ((initial_state module_config)\<lparr>calls := 1\<rparr>) =
     send_request module_config 1 ((initial_state module_config)\<lparr>calls := 1\<rparr>) \<and>
   current_max_stars
     (outer_pass module_config one_descending_page ((initial_state module_config)\<lparr>calls := 1\<rparr>))
     = current_max_stars ((initial_state module_config)\<lparr>calls := 1\<rparr>) - 1"
proof -
  let ?st = "(initial_state module_config)\<lparr>calls := 1\<rparr>"
  have d: "Some [] = None \<or> Some [] = Some ([] :: item list)" by simp
  have r: "one_descending_page (calls ?st) (current_max_stars ?st)
      (RESULTS_PER_PAGE module_config) 1 = Response 200 (Data (Some []))"
    by code_simp
  have p: "1 \<le> PAGES_PER_QUERY module_config" by code_simp
  show ?thesis
    using r p
      empty_page_stops_inner_loop [where d = "Some []" and api = one_descending_page and st = ?st and cfg = module_config
          and pg = 1 and pages = "[2]", OF d]
    by blast
qed

lemma item_exception_stops_inner_loop:
  assumes "api (calls st) (current_max_stars st) (RESULTS_PER_PAGE cfg) pg =
      Response 200 (Data (Some its))"
    and "process_items cfg its (send_request cfg pg st) = (True, st2)"
  shows "page_loop cfg api (pg # pages) st = st2"
proof -
  have "its \<noteq> []" using assms(2) by auto
  then show ?thesis using assms by (simp add: Let_def)
qed




subsection \<open>The fields of a row\<close>

lemma str_cell_case: "str_cell x = (case x of None \<Rightarrow> CNone | Some s \<Rightarrow> CStr s)"
  by (cases x) simp_all

lemma int_cell_case: "int_cell x = (case x of None \<Rightarrow> CNone | Some n \<Rightarrow> CInt n)"
  by (cases x) simp_all

lemma description_str_case:
  "description_str x = (case x of Absent \<Rightarrow> [] | Null \<Rightarrow> ''None'' | Val s \<Rightarrow> s)"
  by (cases x) simp_all

lemma make_row_cells:
  "length (make_row r) = 10 \<and> length (make_row r) = length csv_headers \<and>
   zip csv_headers (make_row r) =
     [(CStr ''name'', case name r of None \<Rightarrow> CNone | Some s \<Rightarrow> CStr s),
      (CStr ''full_name'', case full_name r of None \<Rightarrow> CNone | Some s \<Rightarrow> CStr s),
      (CStr ''url'', case html_url r of None \<Rightarrow> CNone | Some s \<Rightarrow> CStr s),
      (CStr ''description'',
         CStr (map (\<lambda>c. if c = CHR 0x0A then CHR '' '' else c)
           (case description r of Absent \<Rightarrow> [] | Null \<Rightarrow> ''None'' | Val s \<Rightarrow> s))),
      (CStr ''stars'', CInt (case stargazers_count r of None \<Rightarrow> 0 | Some n \<Rightarrow> n)),
      (CStr ''forks'', case forks_count r of None \<Rightarrow> CNone | Some n \<Rightarrow> CInt n),
      (CStr ''open_issues'', case open_issues_count r of None \<Rightarrow> CNone | Some n \<Rightarrow> CInt n),
      (CStr ''created_at'', case created_at r of None \<Rightarrow> CNone | Some s \<Rightarrow> CStr s),
      (CStr ''updated_at'', case updated_at r of None \<Rightarrow> CNone | Some s \<Rightarrow> CStr s),
      (CStr ''license_name'',
         case license r of
           None \<Rightarrow> CStr ''N/A''
         | Some l \<Rightarrow>
             (case license_name l of
                Absent \<Rightarrow> CStr ''N/A'' | Null \<Rightarrow> CNone | Val s \<Rightarrow> CStr s))] \<and>
   (license r = None \<longrightarrow> make_row r ! 9 = CStr ''N/A'')"
  unfolding make_row_def csv_headers_def license_cell_def stars_def replace_newline_def
    str_cell_case int_cell_case description_str_case
  by simp

lemma header_row_first:
  "csvfile (fetch_repositories cfg api) = csv_headers # data_rows (fetch_repositories cfg api)"
  using fetch_repositories_wrote [of cfg api] by (auto simp: data_rows_def)

lemma data_rows_from_items:
  "row \<in> set (data_rows (fetch_repositories cfg api)) \<Longrightarrow>
   \<exists>r. returned api r \<and> row = make_row r"
proof -
  assume m: "row \<in> set (data_rows (fetch_repositories cfg api))"
  from fetch_repositories_wrote [of cfg api] obtain rs where
    rs: "csvfile (fetch_repositories cfg api) = csv_headers # map make_row rs"
      "\<forall>r \<in> set rs. returned api r"
    by blast
  from m rs(1) have "row \<in> make_row ` set rs" by (simp add: data_rows_def)
  with rs(2) show ?thesis by blast
qed

text \<open>
  Claim C7: every written row has exactly ten fields in the order of the header (name,
  full name, URL, description, stars, forks, open issues, created, updated, license name),
  and the license field is \<open>N/A\<close> when the item has no license. The file is the header
  row followed by the record rows; every record row comes from an item that the API
  returned, and each of its ten cells is given here from the fields of that item: a text
  or a count as received, an empty cell for an absent or \<open>null\<close> one, the description
  with its line feeds replaced, 0 for an absent star count.
\<close>

theorem written_rows_have_ten_fields:
  "csvfile (fetch_repositories cfg api) = csv_headers # data_rows (fetch_repositories cfg api) \<and>
   (\<forall>row \<in> set (data_rows (fetch_repositories cfg api)).
     \<exists>r. returned api r \<and> row = make_row r \<and>
       length row = 10 \<and> length row = length csv_headers \<and>
       zip csv_headers row =
         [(CStr ''name'', case name r of None \<Rightarrow> CNone | Some s \<Rightarrow> CStr s),
          (CStr ''full_name'', case full_name r of None \<Rightarrow> CNone | Some s \<Rightarrow> CStr s),
          (CStr ''url'', case html_url r of None \<Rightarrow> CNone | Some s \<Rightarrow> CStr s),
          (CStr ''description'',
             CStr (map (\<lambda>c. if c = CHR 0x0A then CHR '' '' else c)
               (case description r of Absent \<Rightarrow> [] | Null \<Rightarrow> ''None'' | Val s \<Rightarrow> s))),
          (CStr ''stars'', CInt (case stargazers_count r of None \<Rightarrow> 0 | Some n \<Rightarrow> n)),
          (CStr ''forks'', case forks_count r of None \<Rightarrow> CNone | Some n \<Rightarrow> CInt n),
          (CStr ''open_issues'',
             case open_issues_count r of None \<Rightarrow> CNone | Some n \<Rightarrow> CInt n),
          (CStr ''created_at'', case created_at r of None \<Rightarrow> CNone | Some s \<Rightarrow> CStr s),
          (CStr ''updated_at'', case updated_at r of None \<Rightarrow> CNone | Some s \<Rightarrow> CStr s),
          (CStr ''license_name'',
             case license r of
               None \<Rightarrow> CStr ''N/A''
             | Some l \<Rightarrow>
                 (case license_name l of
                    Absent \<Rightarrow> CStr ''N/A'' | Null \<Rightarrow> CNone | Val s \<Rightarrow> CStr s))] \<and>
       (license r = None \<longrightarrow> row ! 9 = CStr ''N/A''))"
proof (rule conjI [OF header_row_first], rule ballI)
  fix row
  assume "row \<in> set (data_rows (fetch_repositories cfg api))"
  from data_rows_from_items [OF this] obtain r where r: "returned api r" "row = make_row r"
    by blast
  show "\<exists>r. returned api r \<and> row = make_row r \<and>
       length row = 10 \<and> length row = length csv_headers \<and>
       zip csv_headers row =
         [(CStr ''name'', case name r of None \<Rightarrow> CNone | Some s \<Rightarrow> CStr s),
          (CStr ''full_name'', case full_name r of None \<Rightarrow> CNone | Some s \<Rightarrow> CStr s),
          (CStr ''url'', case html_url r of None \<Rightarrow> CNone | Some s \<Rightarrow> CStr s),
          (CStr ''description'',
             CStr (map (\<lambda>c. if c = CHR 0x0A then CHR '' '' else c)
               (case description r of Absent \<Rightarrow> [] | Null \<Rightarrow> ''None'' | Val s \<Rightarrow> s))),
          (CStr ''stars'', CInt (case stargazers_count r of None \<Rightarrow> 0 | Some n \<Rightarrow> n)),
          (CStr ''forks'', case forks_count r of None \<Rightarrow> CNone | Some n \<Rightarrow> CInt n),
          (CStr ''open_issues'',
             case open_issues_count r of None \<Rightarrow> CNone | Some n \<Rightarrow> CInt n),
          (CStr ''created_at'', case created_at r of None \<Rightarrow> CNone | Some s \<Rightarrow> CStr s),
          (CStr ''updated_at'', case updated_at r of None \<Rightarrow> CNone | Some s \<Rightarrow> CStr s),
          (CStr ''license_name'',
             case license r of
               None \<Rightarrow> CStr ''N/A''
             | Some l \<Rightarrow>
                 (case license_name l of
                    Absent \<Rightarrow> CStr ''N/A'' | Null \<Rightarrow> CNone | Val s \<Rightarrow> CStr s))] \<and>
       (license r = None \<longrightarrow> row ! 9 = CStr ''N/A'')"
    unfolding r(2) using r(1) make_row_cells [of r] by (intro exI [of _ r]) blast
qed

theorem written_rows_have_ten_fields_witness:
  "[CStr ''cli'', CStr ''acme/cli'', CNone, CStr ''a b'', CInt 0, CInt 1, CNone, CNone, CNone,
    CStr ''N/A'']
     \<in> set (data_rows (fetch_repositories module_config rate_limited_once)) \<and>
   csvfile (fetch_repositories module_config rate_limited_once) =
     [csv_headers,
      [CStr ''cli'', CStr ''acme/cli'', CNone, CStr ''a b'', CInt 0, CInt 1, CNone, CNone, CNone,
       CStr ''N/A'']] \<and>
   length [CStr ''cli'', CStr ''acme/cli'', CNone, CStr ''a b'', CInt 0, CInt 1, CNone, CNone,
     CNone, CStr ''N/A''] = 10 \<and>
   license repo_without_stars = None"
proof -
  let ?row = "[CStr ''cli'', CStr ''acme/cli'', CNone, CStr ''a b'', CInt 0, CInt 1, CNone, CNone,
     CNone, CStr ''N/A'']"
  have m: "?row \<in> set (data_rows (fetch_repositories module_config rate_limited_once))"
    by code_simp
  have f: "csvfile (fetch_repositories module_config rate_limited_once) = [csv_headers, ?row]"
    by code_simp
  from written_rows_have_ten_fields [of module_config rate_limited_once] m
  have "length ?row = 10" by blast
  moreover have "license repo_without_stars = None" by code_simp
  ultimately show ?thesis using m f by blast
qed

lemma replace_newline_free: "CHR 0x0A \<notin> set (replace_newline s)"
  by (auto simp: replace_newline_def)

text \<open>
  Claim C8: in every written row the free-text field, the description, is the text of the
  item with every line feed replaced by a space, so it holds no line feed.
\<close>

theorem written_descriptions_have_no_newline:
  "\<forall>row \<in> set (data_rows (fetch_repositories cfg api)).
     \<exists>r. returned api r \<and> row = make_row r \<and>
       csv_headers ! 3 = CStr ''description'' \<and>
       row ! 3 = CStr (replace_newline (description_str (description r))) \<and>
       replace_newline (description_str (description r)) =
         map (\<lambda>c. if c = CHR 0x0A then CHR '' '' else c) (description_str (description r)) \<and>
       CHR 0x0A \<notin> set (replace_newline (description_str (description r)))"
proof
  fix row
  assume "row \<in> set (data_rows (fetch_repositories cfg api))"
  from data_rows_from_items [OF this] obtain r where r: "returned api r" "row = make_row r"
    by blast
  have "csv_headers ! 3 = CStr ''description''" by (simp add: csv_headers_def)
  moreover have "make_row r ! 3 = CStr (replace_newline (description_str (description r)))"
    by (simp add: make_row_def)
  moreover have "replace_newline (description_str (description r)) =
         map (\<lambda>c. if c = CHR 0x0A then CHR '' '' else c) (description_str (description r))"
    by (simp add: replace_newline_def)
  ultimately show "\<exists>r. returned api r \<and> row = make_row r \<and>
       csv_headers ! 3 = CStr ''description'' \<and>
       row ! 3 = CStr (replace_newline (description_str (description r))) \<and>
       replace_newline (description_str (description r)) =
         map (\<lambda>c. if c = CHR 0x0A then CHR '' '' else c) (description_str (description r)) \<and>
       CHR 0x0A \<notin> set (replace_newline (description_str (description r)))"
    unfolding r(2) using r(1) replace_newline_free by (intro exI [of _ r]) blast
qed

theorem written_descriptions_have_no_newline_witness:
  "make_row repo_without_stars
     \<in> set (data_rows (fetch_repositories module_config rate_limited_once)) \<and>
   description repo_without_stars = Val [CHR ''a'', CHR 0x0A, CHR ''b''] \<and>
   make_row repo_without_stars ! 3 = CStr ''a b'' \<and>
   (\<exists>s. make_row repo_without_stars ! 3 = CStr s \<and> CHR 0x0A \<notin> set s)"
proof -
  have m: "make_row repo_without_stars
     \<in> set (data_rows (fetch_repositories module_config rate_limited_once))"
    by code_simp
  from written_descriptions_have_no_newline [of module_config rate_limited_once] m
  have "\<exists>s. make_row repo_without_stars ! 3 = CStr s \<and> CHR 0x0A \<notin> set s" by metis
  moreover have "description repo_without_stars = Val [CHR ''a'', CHR 0x0A, CHR ''b'']"
    by code_simp
  moreover have "make_row repo_without_stars ! 3 = CStr ''a b''" by code_simp
  ultimately show ?thesis using m by blast
qed

subsection \<open>An item without a star count\<close>

text \<open>
  Claim C9: if the last item written during a pass has no \<open>stargazers_count\<close>, its star
  value is 0, the ceiling after the pass is 0 (or, from a ceiling that was not positive,
  one less than it was), and the outer loop makes no further pass: the run ends with the
  state of this pass, whatever the API would still return.
\<close>

theorem missing_star_count_ends_run:
  assumes "total_saved st < TARGET_TOTAL cfg"
    and "csvfile (outer_pass cfg api st) = csvfile st @ new"
    and "new \<noteq> []"
    and "last new = make_row r"
    and "stargazers_count r = None"
  shows "stars r = 0 \<and>
     current_max_stars (outer_pass cfg api st) \<le> 0 \<and>
     current_max_stars (outer_pass cfg api st) =
       (if 0 < current_max_stars st then 0 else current_max_stars st - 1) \<and>
     outer_loop cfg api st = outer_pass cfg api st"
proof -
  from outer_pass_wrote [of cfg api st] obtain rs where
    rs: "csvfile (outer_pass cfg api st) = csvfile st @ map make_row rs"
      "current_max_stars (outer_pass cfg api st) =
         (let l = (if rs = [] then current_max_stars st else stars (last rs))
          in if l \<ge> current_max_stars st then current_max_stars st - 1 else l)"
    by blast
  from rs(1) assms(2) have new: "new = map make_row rs" by simp
  with assms(3) have ne: "rs \<noteq> []" by auto
  have "make_row (last rs) = make_row r"
    using assms(4) ne unfolding new by (simp add: last_map)
  then have "row_stars (make_row (last rs)) = row_stars (make_row r)" by simp
  then have "stars (last rs) = stars r" by (simp only: row_stars_make_row)
  moreover have z: "stars r = 0" using assms(5) by (simp add: stars_def)
  ultimately have c: "current_max_stars (outer_pass cfg api st) =
       (if 0 < current_max_stars st then 0 else current_max_stars st - 1)"
    using rs(2) ne by (auto simp: Let_def)
  then have le: "current_max_stars (outer_pass cfg api st) \<le> 0" by simp
  have "outer_loop cfg api st = outer_pass cfg api st"
    using assms(1) le by (simp add: outer_loop.simps [of cfg api st] Let_def)
  with z c le show ?thesis by blast
qed

theorem missing_star_count_ends_run_witness:
  "total_saved (initial_state module_config) < TARGET_TOTAL module_config \<and>
   csvfile (outer_pass module_config rate_limited_once (initial_state module_config)) =
     csvfile (initial_state module_config) @ [make_row repo_without_stars] \<and>
   stargazers_count repo_without_stars = None \<and>
   current_max_stars (initial_state module_config) = 500000 \<and>
   current_max_stars (outer_pass module_config rate_limited_once (initial_state module_config)) = 0 \<and>
   outer_loop module_config rate_limited_once (initial_state module_config) =
     outer_pass module_config rate_limited_once (initial_state module_config)"
proof -
  let ?st = "initial_state module_config"
  have a1: "total_saved ?st < TARGET_TOTAL module_config" by code_simp
  have a2: "csvfile (outer_pass module_config rate_limited_once ?st) =
     csvfile ?st @ [make_row repo_without_stars]"
    by code_simp
  have a3: "[make_row repo_without_stars] \<noteq> []" by simp
  have a4: "last [make_row repo_without_stars] = make_row repo_without_stars" by simp
  have a5: "stargazers_count repo_without_stars = None" by code_simp
  have c: "current_max_stars ?st = 500000" by code_simp
  from missing_star_count_ends_run [where api = rate_limited_once, OF a1 a2 a3 a4 a5] c
  have "current_max_stars (outer_pass module_config rate_limited_once ?st) = 0"
    and "outer_loop module_config rate_limited_once ?st =
      outer_pass module_config rate_limited_once ?st"
    by simp_all
  with a1 a2 a5 c show ?thesis by blast
qed

subsection \<open>The counter and the file\<close>

lemma wrote_consistent:
  "wrote st rs st' \<Longrightarrow> counter_consistent st \<Longrightarrow> counter_consistent st'"
  by (auto simp: wrote_def counter_consistent_def data_rows_def)

lemma rows_consistent:
  assumes "csvfile st' = csvfile st @ map make_row rs"
    and "total_saved st' = total_saved st + length rs"
    and "counter_consistent st"
  shows "counter_consistent st'"
  using assms by (auto simp: counter_consistent_def data_rows_def)

text \<open>
  Claim C10: at every point of the run the counter \<open>total_saved\<close> is the number of record
  rows in the file. It holds at the start, each of the loops keeps it, and so the count
  of the final message is the number of rows below the header.
\<close>

theorem saved_counter_counts_rows:
  "counter_consistent (initial_state cfg) \<and>
   (counter_consistent st \<longrightarrow>
      counter_consistent (snd (process_items cfg its st)) \<and>
      counter_consistent (page_loop cfg api pages st) \<and>
      counter_consistent (outer_pass cfg api st) \<and>
      counter_consistent (outer_loop cfg api st)) \<and>
   counter_consistent (fetch_repositories cfg api) \<and>
   total_saved (fetch_repositories cfg api) = length (data_rows (fetch_repositories cfg api))"
proof -
  have init: "counter_consistent (initial_state cfg)"
    by (simp add: counter_consistent_def initial_state_def data_rows_def)
  have items: "counter_consistent (snd (process_items cfg its s))"
    if "counter_consistent s" for s
    using process_items_wrote [of s cfg its] wrote_consistent that by blast
  have pages: "counter_consistent (page_loop cfg api pages s)"
    if "counter_consistent s" for s
    using page_loop_wrote [of s cfg api pages] wrote_consistent that by blast
  have pass: "counter_consistent (outer_pass cfg api s)"
    if "counter_consistent s" for s
    using outer_pass_wrote [of cfg api s] rows_consistent that by blast
  have loop: "counter_consistent (outer_loop cfg api s)"
    if "counter_consistent s" for s
    using outer_loop_wrote [of cfg api s] rows_consistent that by blast
  have fin: "counter_consistent (fetch_repositories cfg api)"
    unfolding fetch_repositories_def by (rule loop [OF init])
  then have "total_saved (fetch_repositories cfg api) =
      length (data_rows (fetch_repositories cfg api))"
    by (simp add: counter_consistent_def)
  with init items pages pass loop fin show ?thesis by blast
qed

theorem saved_counter_counts_rows_witness:
  "counter_consistent (initial_state module_config) \<and>
   counter_consistent
     (outer_loop module_config rate_limited_once (initial_state module_config)) \<and>
   total_saved (fetch_repositories module_config rate_limited_once) = 1 \<and>
   length (data_rows (fetch_repositories module_config rate_limited_once)) = 1"
proof -
  have t: "total_saved (fetch_repositories module_config rate_limited_once) = 1"
    by code_simp
  from saved_counter_counts_rows [of module_config "initial_state module_config" "[]" rate_limited_once "[]"] t
  show ?thesis by simp
qed

end
